theory Spec2Isabelle
  imports Main "HOL-Library.Word"
begin

section \<open>Data model of share/network\<close>

type_synonym uint16 = "16 word"
type_synonym uint32 = "32 word"

text \<open>Go's \<open>int32\<close>: a 32-bit word, read in two's complement by \<open>sint\<close>.\<close>

type_synonym int32 = "32 word"

text \<open>
  A \<open>*Session\<close> is an address of the store of session objects. A \<open>nil\<close> pointer,
  and the value Go's map read gives for an absent key, is \<open>None\<close>.
\<close>

type_synonym addr = nat

text \<open>
  A \<open>*Writer\<close> is a packet under construction: its opcode and the bytes written so far.
  The registry only passes it on.
\<close>

datatype Writer = Writer nat "8 word list"

text \<open>
  The game server's \<open>character.Character\<close>. Only \<open>Id\<close> decides control flow in the
  handlers; \<open>Name\<close> stands for the fields that are only copied into the reply.
\<close>

record Character =
  Id :: int32
  Name :: string

text \<open>
  \<open>Session.DataEx\<close> is an empty interface: \<open>nil\<close>, the game server's \<open>*context\<close> (whose
  \<open>char\<close> pointer is \<open>nil\<close> or a character), or a value of some other dynamic type.
\<close>

datatype DataEx = NilData | Context "Character option" | OtherData

text \<open>
  The fields of \<open>Session\<close> that network.go and the handlers read or write. \<open>socket\<close> is
  the accepted \<open>net.Conn\<close>, represented by its remote IP; \<open>None\<close> is the \<open>nil\<close>
  connection that \<open>l.Accept\<close> returns together with an error. \<open>Verified\<close>, \<open>LoggedIn\<close>,
  \<open>AccountId\<close> and \<open>CharacterList\<close> are the fields of \<open>Session.Data\<close>.
\<close>

record Session =
  socket :: "string option"
  UserIdx :: uint16
  AuthKey :: uint32
  Connected :: bool
  Verified :: bool
  LoggedIn :: bool
  AccountId :: int32
  CharacterList :: "Character list"
  DataEx :: DataEx

text \<open>The messages given to \<open>log.Error\<close> and \<open>log.Errorf\<close>, with their arguments.\<close>

datatype logmsg =
    ErrAccepting string
  | ErrNoUserIndex
  | ErrParseDisconnect
  | ErrNotVerified int32
  | ErrNoContext int32
  | ErrInvalidCharId int32 int32

text \<open>
  What a function does besides changing the registry and the sessions, in program order:
  the operations on the registry's \<open>sync.RWMutex\<close>, the calls of \<open>Session.Send\<close> and
  \<open>Session.Close\<close>, the log lines, the connect event, the start of the session's
  goroutine, the operations on a context's own mutex and the RPC calls.
\<close>

datatype event =
    RLock | RUnlock | Lock | Unlock
  | Send addr Writer
  | Close addr
  | LogError logmsg
  | TriggerConnect addr
  | GoStart addr
  | CtxLock addr | CtxUnlock addr
  | RpcLoadCharacters int32 "8 word"
  | RpcLoadCharacterData "8 word" int32

text \<open>
  The \<open>Network\<close> struct (\<open>clients\<close>, \<open>userIdx\<close>; the lock is followed through the
  trace), the store of the session objects that pointers refer to, the next address the
  allocator hands out, and the trace of events.
\<close>

record state =
  clients :: "uint16 \<Rightarrow> addr option"
  userIdx :: uint16
  heap :: "addr \<Rightarrow> Session"
  nextAddr :: addr
  trace :: "event list"

definition emit :: "event \<Rightarrow> state \<Rightarrow> state" where
  "emit e st = st\<lparr>trace := trace st @ [e]\<rparr>"

text \<open>The events a step from \<open>st\<close> to \<open>st'\<close> has added to the trace.\<close>

definition emitted :: "state \<Rightarrow> state \<Rightarrow> event list" where
  "emitted st st' = drop (length (trace st)) (trace st')"

text \<open>The calls of \<open>Session.Send\<close> in a trace: which session, which packet.\<close>

fun sends :: "event list \<Rightarrow> (addr \<times> Writer) list" where
  "sends [] = []"
| "sends (Send p w # es) = (p, w) # sends es"
| "sends (e # es) = sends es"

text \<open>
  The calls of \<open>Session.Send\<close> made while the registry's read lock is held; \<open>d\<close> is the
  number of read locks held before the first event.
\<close>

fun sends_under_rlock :: "nat \<Rightarrow> event list \<Rightarrow> (addr \<times> Writer) list" where
  "sends_under_rlock d [] = []"
| "sends_under_rlock d (RLock # es) = sends_under_rlock (Suc d) es"
| "sends_under_rlock d (RUnlock # es) = sends_under_rlock (d - 1) es"
| "sends_under_rlock d (Send p w # es) =
     (if 0 < d then (p, w) # sends_under_rlock d es else sends_under_rlock d es)"
| "sends_under_rlock d (e # es) = sends_under_rlock d es"

subsection \<open>Session methods that are not part of the sources at hand\<close>

text \<open>
  Modelled from the spec: \<open>Session.GetIp\<close> (share/network/session.go is missing). The
  spec lists the "remote-endpoint address" among a session's attributes; it is the address
  of the session's socket, and a session without a socket has none.
\<close>

definition GetIp :: "Session \<Rightarrow> string option" where
  "GetIp s = socket s"

text \<open>
  Modelled from the spec: \<open>Session.Send\<close> (share/network/session.go is missing). The
  spec calls it the blocking socket write of a packet; the model records the call and
  leaves registry and sessions as they are.
\<close>

definition Session_Send :: "addr \<Rightarrow> Writer \<Rightarrow> state \<Rightarrow> state" where
  "Session_Send p w st = emit (Send p w) st"

text \<open>
  Modelled from the spec: \<open>Session.Close\<close> (share/network/session.go is missing). The
  session goes from Active to Closed: its \<open>connected\<close> flag is cleared, and closing again
  changes nothing more. The disconnect notification reaches the registry as a step of
  its own, \<open>onClientDisconnect\<close>.
\<close>

definition Session_Close :: "addr \<Rightarrow> state \<Rightarrow> state" where
  "Session_Close p st =
     emit (Close p) (st\<lparr>heap := (heap st)(p := (heap st p)\<lparr>Connected := False\<rparr>)\<rparr>)"

section \<open>Network.Init\<close>

text \<open>\<open>Session{socket: socket}\<close>: every other field has its zero value.\<close>

definition new_session :: "string option \<Rightarrow> Session" where
  "new_session sock =
     \<lparr>socket = sock, UserIdx = 0, AuthKey = 0, Connected = False, Verified = False,
      LoggedIn = False, AccountId = 0, CharacterList = [], DataEx = NilData\<rparr>"

text \<open>
  \<open>Init\<close> before its accept loop: an empty map and \<open>userIdx = 0\<close>. No session object
  exists yet.
\<close>

definition Init_state :: state where
  "Init_state =
     \<lparr>clients = (\<lambda>k. None), userIdx = 0, heap = (\<lambda>p. new_session None), nextAddr = 0,
      trace = []\<rparr>"

text \<open>
  The inner loop \<open>for n.clients[n.userIdx] != nil { n.userIdx++ }\<close>, on the map and the
  running index; \<open>+\<close> on \<open>uint16\<close> wraps. The loop has no bound, so it is a partial
  function: \<open>None\<close> is "never leaves the loop".
\<close>

partial_function (option) find_free_idx :: "(uint16 \<Rightarrow> addr option) \<Rightarrow> uint16 \<Rightarrow> uint16 option"
where
  "find_free_idx cl idx = (if cl idx \<noteq> None then find_free_idx cl (idx + 1) else Some idx)"

text \<open>
  Lines 81 to 91: the session is stored under the running index, takes it as its
  \<open>UserIdx\<close>, and the running index moves on by one.
\<close>

definition register_session :: "addr \<Rightarrow> state \<Rightarrow> state" where
  "register_session p st =
     (let st1 = emit Lock st;
          st2 = st1\<lparr>clients := (clients st1)(userIdx st1 := Some p)\<rparr>;
          st3 = st2\<lparr>heap := (heap st2)(p := (heap st2 p)\<lparr>UserIdx := userIdx st2\<rparr>)\<rparr>;
          st4 = st3\<lparr>userIdx := userIdx st3 + 1\<rparr>;
          st5 = emit Unlock st4
      in emit (GoStart p) (emit (TriggerConnect p) st5))"

text \<open>How one iteration of the accept loop ends for the new session.\<close>

datatype accepted = Registered addr | Dropped addr

text \<open>
  One iteration of the accept loop (lines 45 to 92). \<open>sock\<close> and \<open>err\<close> are the two
  results of \<open>l.Accept()\<close>; an error is logged and the iteration goes on. The result is
  \<open>None\<close> when the iteration never ends.
\<close>

definition Init_accept :: "string option \<Rightarrow> string option \<Rightarrow> state \<Rightarrow> (accepted \<times> state) option"
where
  "Init_accept sock err st =
     (let st1 = (case err of Some e \<Rightarrow> emit (LogError (ErrAccepting e)) st | None \<Rightarrow> st);
          p = nextAddr st1;
          st2 = st1\<lparr>heap := (heap st1)(p := new_session sock), nextAddr := Suc p\<rparr>;
          st3 = emit RLock st2
      in if clients st3 (userIdx st3) \<noteq> None then
           (let st4 = emit Lock (emit RUnlock st3)
            in case find_free_idx (clients st4) (userIdx st4) of
                 None \<Rightarrow> None
               | Some idx \<Rightarrow>
                   (let st5 = emit RLock (emit Unlock (st4\<lparr>userIdx := idx\<rparr>))
                    in if clients st5 (userIdx st5) \<noteq> None then
                         Some (Dropped p,
                               Session_Close p
                                 (emit (LogError ErrNoUserIndex) (emit RUnlock st5)))
                       else Some (Registered p, register_session p (emit RUnlock st5))))
         else Some (Registered p, register_session p (emit RUnlock st3)))"

text \<open>
  The identity the iteration gave to the new session, when it registered one.
\<close>

definition assigned_identity :: "(accepted \<times> state) option \<Rightarrow> uint16 option" where
  "assigned_identity r =
     (case r of
        Some (Registered p, st') \<Rightarrow> Some (UserIdx (heap st' p))
      | Some (Dropped p, st') \<Rightarrow> None
      | None \<Rightarrow> None)"

section \<open>Network.onClientDisconnect\<close>

text \<open>
  The argument of an event handler is an empty interface; the handler asserts that it is
  a \<open>*Session\<close>.
\<close>

datatype Event = SessionEvent addr | OtherEvent

definition onClientDisconnect :: "Event \<Rightarrow> state \<Rightarrow> state" where
  "onClientDisconnect ev st =
     (case ev of
        OtherEvent \<Rightarrow> emit (LogError ErrParseDisconnect) st
      | SessionEvent p \<Rightarrow>
          (let st1 = emit Lock st;
               st2 = st1\<lparr>clients := (clients st1)(UserIdx (heap st1 p) := None)\<rparr>
           in emit Unlock st2))"

section \<open>Sequences of accepts and disconnects\<close>

datatype op = Accept "string option" "string option" | Disconnect Event

fun step :: "op \<Rightarrow> state \<Rightarrow> state option" where
  "step (Accept sock err) st = map_option snd (Init_accept sock err st)"
| "step (Disconnect ev) st = Some (onClientDisconnect ev st)"

fun run :: "op list \<Rightarrow> state \<Rightarrow> state option" where
  "run [] st = Some st"
| "run (x # xs) st = (case step x st of None \<Rightarrow> None | Some st' \<Rightarrow> run xs st')"

text \<open>
  The registry is consistent when every entry points to an allocated session object
  whose \<open>UserIdx\<close> is the key it is stored under.
\<close>

definition reg_inv :: "state \<Rightarrow> bool" where
  "reg_inv st \<longleftrightarrow>
     (\<forall>k p. clients st k = Some p \<longrightarrow> p < nextAddr st \<and> UserIdx (heap st p) = k)"

section \<open>Registries used as examples\<close>

text \<open>
  A registry in which each of the 65536 identities is held by a session: the session at
  address \<open>p\<close> has identity \<open>p\<close>.
\<close>

definition full_registry :: state where
  "full_registry =
     \<lparr>clients = (\<lambda>k. Some (unat k)), userIdx = 0,
      heap = (\<lambda>p. (new_session (Some ''10.0.0.1''))\<lparr>UserIdx := of_nat p\<rparr>),
      nextAddr = 65536, trace = []\<rparr>"

text \<open>
  A registry with one session, at address 0 under identity 0, as \<open>Session.Start\<close> leaves
  it once the connection is up: connected, with auth key 5.
\<close>

definition one_connected :: state where
  "one_connected =
     \<lparr>clients = (\<lambda>k. None)(0 := Some 0), userIdx = 1,
      heap = (\<lambda>p. (new_session (Some ''10.0.0.1''))\<lparr>AuthKey := 5, Connected := True\<rparr>),
      nextAddr = 1, trace = []\<rparr>"

text \<open>
  The registry after \<open>Init\<close> has accepted its first connection: the session is
  registered, and \<open>Connected\<close> still has the zero value it was created with.
\<close>

definition just_accepted :: state where
  "just_accepted =
     (case run [Accept (Some ''10.0.0.1'') None] Init_state of
        Some st \<Rightarrow> st
      | None \<Rightarrow> Init_state)"

text \<open>A registry with two connected sessions, at addresses 0 and 1.\<close>

definition two_connected :: state where
  "two_connected =
     \<lparr>clients = (\<lambda>k. None)(0 := Some 0, 1 := Some 1), userIdx = 2,
      heap = (\<lambda>p. (new_session (Some ''10.0.0.1''))\<lparr>UserIdx := of_nat p, Connected := True\<rparr>),
      nextAddr = 2, trace = []\<rparr>"

text \<open>
  A registry whose only session holds identity \<open>i\<close> and is verified and logged in as
  account 42.
\<close>

definition online_at :: "uint16 \<Rightarrow> state" where
  "online_at i =
     \<lparr>clients = (\<lambda>k. None)(i := Some 0), userIdx = i + 1,
      heap = (\<lambda>p. (new_session (Some ''10.0.0.1''))
                \<lparr>UserIdx := i, Connected := True, Verified := True, LoggedIn := True,
                 AccountId := 42\<rparr>),
      nextAddr = 1, trace = []\<rparr>"

section \<open>Operations over the registered sessions\<close>

text \<open>
  \<open>for _, s := range n.clients\<close> visits every entry once, in an order Go leaves open.
  The loops below take the order as the list \<open>ks\<close> of keys; it is an order of the map
  when it lists every key of the map once.
\<close>

definition range_order :: "uint16 list \<Rightarrow> state \<Rightarrow> bool" where
  "range_order ks st \<longleftrightarrow> distinct ks \<and> set ks = dom (clients st)"

text \<open>The sessions a loop over the map visits, in the order of the visit.\<close>

definition visited :: "uint16 list \<Rightarrow> state \<Rightarrow> addr list" where
  "visited ks st = List.map_filter (clients st) ks"

subsection \<open>Network.VerifyUser\<close>

definition VerifyUser :: "uint16 \<Rightarrow> uint32 \<Rightarrow> string \<Rightarrow> int32 \<Rightarrow> state \<Rightarrow> bool \<times> state" where
  "VerifyUser i k ip db_idx st =
     (let st1 = emit Lock st
      in case clients st1 i of
           None \<Rightarrow> (False, emit Unlock st1)
         | Some s \<Rightarrow>
             if AuthKey (heap st1 s) = k \<and> GetIp (heap st1 s) = Some ip then
               (True,
                emit Unlock
                  (st1\<lparr>heap := (heap st1)
                     (s := (heap st1 s)\<lparr>Verified := True, LoggedIn := True,
                                         AccountId := db_idx\<rparr>)\<rparr>))
             else (False, emit Unlock st1))"

subsection \<open>Network.SendToUser\<close>

definition SendToUser :: "uint16 \<Rightarrow> Writer \<Rightarrow> state \<Rightarrow> bool \<times> state" where
  "SendToUser i writer st =
     (let st1 = emit RLock st
      in case clients st1 i of
           None \<Rightarrow> (False, emit RUnlock st1)
         | Some session \<Rightarrow>
             if Connected (heap st1 session) then
               (True, emit RUnlock (Session_Send session writer st1))
             else (False, emit RUnlock st1))"

subsection \<open>Network.SendToAll and Network.SendToAllExcept\<close>

fun SendToAll_loop :: "Writer \<Rightarrow> uint16 list \<Rightarrow> state \<Rightarrow> state" where
  "SendToAll_loop writer [] st = st"
| "SendToAll_loop writer (k # ks) st =
     (case clients st k of
        None \<Rightarrow> SendToAll_loop writer ks st
      | Some s \<Rightarrow> SendToAll_loop writer ks (Session_Send s writer st))"

definition SendToAll :: "uint16 list \<Rightarrow> Writer \<Rightarrow> state \<Rightarrow> state" where
  "SendToAll ks writer st = emit RUnlock (SendToAll_loop writer ks (emit RLock st))"

text \<open>\<open>s == session\<close> compares pointers; the argument may be \<open>nil\<close>.\<close>

fun SendToAllExcept_loop :: "Writer \<Rightarrow> addr option \<Rightarrow> uint16 list \<Rightarrow> state \<Rightarrow> state" where
  "SendToAllExcept_loop writer session [] st = st"
| "SendToAllExcept_loop writer session (k # ks) st =
     (case clients st k of
        None \<Rightarrow> SendToAllExcept_loop writer session ks st
      | Some s \<Rightarrow>
          if Some s = session then SendToAllExcept_loop writer session ks st
          else SendToAllExcept_loop writer session ks (Session_Send s writer st))"

definition SendToAllExcept :: "uint16 list \<Rightarrow> Writer \<Rightarrow> addr option \<Rightarrow> state \<Rightarrow> state" where
  "SendToAllExcept ks writer session st =
     emit RUnlock (SendToAllExcept_loop writer session ks (emit RLock st))"

subsection \<open>Network.IsOnline\<close>

fun IsOnline_loop :: "int32 \<Rightarrow> uint16 list \<Rightarrow> state \<Rightarrow> uint16 option" where
  "IsOnline_loop account [] st = None"
| "IsOnline_loop account (k # ks) st =
     (case clients st k of
        None \<Rightarrow> IsOnline_loop account ks st
      | Some s \<Rightarrow>
          if AccountId (heap st s) = account \<and> Verified (heap st s) \<and> LoggedIn (heap st s)
          then Some (UserIdx (heap st s))
          else IsOnline_loop account ks st)"

text \<open>
  The constant \<open>INVALID_USER_INDEX\<close> is declared outside the sources at hand; it is the
  first argument. The function returns a \<open>uint16\<close>, so the constant is one.
\<close>

definition IsOnline :: "uint16 \<Rightarrow> uint16 list \<Rightarrow> int32 \<Rightarrow> state \<Rightarrow> uint16 \<times> state" where
  "IsOnline INVALID_USER_INDEX ks account st =
     (let st1 = emit RLock st
      in case IsOnline_loop account ks st1 of
           Some index \<Rightarrow> (index, emit RUnlock st1)
         | None \<Rightarrow> (INVALID_USER_INDEX, emit RUnlock st1))"

text \<open>The session \<open>account\<close> is looked for: its account, verified and logged in.\<close>

definition online_as :: "int32 \<Rightarrow> Session \<Rightarrow> bool" where
  "online_as account s \<longleftrightarrow> Verified s \<and> LoggedIn s \<and> AccountId s = account"

subsection \<open>Network.CloseUser\<close>

fun CloseUser_loop :: "uint16 \<Rightarrow> uint16 list \<Rightarrow> state \<Rightarrow> addr option" where
  "CloseUser_loop i [] st = None"
| "CloseUser_loop i (k # ks) st =
     (case clients st k of
        None \<Rightarrow> CloseUser_loop i ks st
      | Some session \<Rightarrow>
          if UserIdx (heap st session) = i then Some session else CloseUser_loop i ks st)"

definition CloseUser :: "uint16 list \<Rightarrow> uint16 \<Rightarrow> state \<Rightarrow> bool \<times> state" where
  "CloseUser ks i st =
     (let st1 = emit RLock st
      in case CloseUser_loop i ks st1 of
           Some session \<Rightarrow> (True, emit RUnlock (Session_Close session st1))
         | None \<Rightarrow> (False, emit RUnlock st1))"

section \<open>The game server's Initialized handler\<close>

text \<open>\<open>character.DataRes\<close>, by the serialised form of its three parts.\<close>

record DataRes =
  Inventory :: "8 word list"
  Skills :: "8 word list"
  Links :: "8 word list"

text \<open>
  What the handler takes from outside the sources at hand: the server id of
  \<open>g_ServerSettings\<close>, the answers of the two RPC calls, and the layout of the reply
  packet (lines 71 to 202, a fixed sequence of writes of the character and its data).
\<close>

record env =
  ServerId :: int
  LoadCharacters :: "int32 \<Rightarrow> 8 word \<Rightarrow> Character list"
  LoadCharacterData :: "8 word \<Rightarrow> int32 \<Rightarrow> DataRes"
  initialized_packet :: "Character \<Rightarrow> DataRes \<Rightarrow> Writer"

text \<open>Go's conversion \<open>byte(x)\<close> keeps the low eight bits.\<close>

definition byte :: "int \<Rightarrow> 8 word" where
  "byte x = word_of_int x"

text \<open>\<open>character.Character{}\<close>, the zero value.\<close>

definition zero_Character :: Character where
  "zero_Character = \<lparr>Id = 0, Name = []\<rparr>"

text \<open>
  Lines 49 to 54: the first entry of the list whose \<open>Id\<close> is \<open>charId\<close>, else the zero
  value \<open>c\<close> started with.
\<close>

fun fetch_character :: "int32 \<Rightarrow> Character list \<Rightarrow> Character" where
  "fetch_character charId [] = zero_Character"
| "fetch_character charId (d # ds) = (if Id d = charId then d else fetch_character charId ds)"

text \<open>
  \<open>Initialized(session, reader)\<close>; \<open>charId\<close> is what \<open>reader.ReadInt32()\<close> returned.
  \<open>>>\<close> on an \<open>int32\<close> is the arithmetic shift.
\<close>

definition Initialized :: "env \<Rightarrow> addr \<Rightarrow> int32 \<Rightarrow> state \<Rightarrow> state" where
  "Initialized e session charId st =
     (let s = heap st session
      in if \<not> Verified s \<or> \<not> LoggedIn s \<or> DataEx s = NilData then
           emit (LogError (ErrNotVerified charId)) st
         else
           (case DataEx s of
              NilData \<Rightarrow> emit (LogError (ErrNoContext (AccountId s))) st
            | OtherData \<Rightarrow> emit (LogError (ErrNoContext (AccountId s))) st
            | Context ch \<Rightarrow>
                if signed_drop_bit 3 charId \<noteq> AccountId s then
                  emit (LogError (ErrInvalidCharId (AccountId s) charId)) st
                else
                  (let st1 =
                         (if length (CharacterList s) = 0 then
                            (emit (RpcLoadCharacters (AccountId s) (byte (ServerId e))) st)
                              \<lparr>heap := (heap st)
                                 (session := s\<lparr>CharacterList :=
                                    LoadCharacters e (AccountId s) (byte (ServerId e))\<rparr>)\<rparr>
                          else st);
                       c = fetch_character charId (CharacterList (heap st1 session))
                   in if Id c \<noteq> charId then
                        emit (LogError (ErrInvalidCharId (AccountId s) charId)) st1
                      else
                        (let st2 = emit (RpcLoadCharacterData (byte (ServerId e)) (Id c)) st1;
                             res = LoadCharacterData e (byte (ServerId e)) (Id c);
                             st3 = Session_Send session (initialized_packet e c res) st2;
                             st4 = emit (CtxLock session) st3;
                             st5 = st4\<lparr>heap := (heap st4)
                                      (session := (heap st4 session)\<lparr>DataEx := Context (Some c)\<rparr>)\<rparr>
                         in emit (CtxUnlock session) st5))))"

section \<open>The search for a free index\<close>

lemma find_free_idx_free:
  "find_free_idx cl i = Some r \<Longrightarrow> cl r = None"
proof (rule find_free_idx.raw_induct [where P = "\<lambda>c j y. c y = None"])
  show "find_free_idx cl i = Some r \<Longrightarrow> find_free_idx cl i = Some r" .
next
  fix f :: "(uint16 \<Rightarrow> addr option) \<Rightarrow> uint16 \<Rightarrow> uint16 option" and c j y
  assume ih: "\<And>c j y. f c j = Some y \<Longrightarrow> c y = None"
    and eq: "(if c j \<noteq> None then f c (j + 1) else Some j) = Some y"
  show "c y = None"
  proof (cases "c j = None")
    case True
    with eq show ?thesis by simp
  next
    case False
    with eq have "f c (j + 1) = Some y" by simp
    then show ?thesis by (rule ih)
  qed
qed

lemma find_free_idx_full:
  assumes full: "\<And>k. cl k \<noteq> None"
  shows "find_free_idx cl i = None"
proof (cases "find_free_idx cl i")
  case None
  then show ?thesis .
next
  case (Some r)
  then have "cl r = None" by (rule find_free_idx_free)
  with full [of r] show ?thesis by simp
qed

lemma find_free_idx_steps:
  "cl (i + of_nat k) = None \<Longrightarrow> (\<And>j. j < k \<Longrightarrow> cl (i + of_nat j) \<noteq> None) \<Longrightarrow>
   find_free_idx cl i = Some (i + of_nat k)"
proof (induction k arbitrary: i)
  case 0
  then show ?case by (subst find_free_idx.simps) simp
next
  case (Suc k)
  have occ: "cl i \<noteq> None" using Suc.prems(2) [of 0] by simp
  have shift: "\<And>m. i + 1 + of_nat m = i + of_nat (Suc m)" by simp
  have "find_free_idx cl (i + 1) = Some (i + 1 + of_nat k)"
  proof (rule Suc.IH)
    show "cl (i + 1 + of_nat k) = None" using Suc.prems(1) unfolding shift .
  next
    fix j assume "j < k"
    then have "cl (i + of_nat (Suc j)) \<noteq> None" using Suc.prems(2) [of "Suc j"] by simp
    then show "cl (i + 1 + of_nat j) \<noteq> None" unfolding shift .
  qed
  then have "find_free_idx cl (i + 1) = Some (i + of_nat (Suc k))" unfolding shift .
  then show ?case using occ by (subst find_free_idx.simps) (simp del: of_nat_Suc)
qed

lemma emit_simps [simp]:
  "clients (emit e st) = clients st"
  "userIdx (emit e st) = userIdx st"
  "heap (emit e st) = heap st"
  "nextAddr (emit e st) = nextAddr st"
  "trace (emit e st) = trace st @ [e]"
  by (simp_all add: emit_def)

lemma register_session_simps [simp]:
  "clients (register_session p st) = (clients st)(userIdx st := Some p)"
  "userIdx (register_session p st) = userIdx st + 1"
  "heap (register_session p st) = (heap st)(p := (heap st p)\<lparr>UserIdx := userIdx st\<rparr>)"
  "nextAddr (register_session p st) = nextAddr st"
  "trace (register_session p st) = trace st @ [Lock, Unlock, TriggerConnect p, GoStart p]"
  by (simp_all add: register_session_def Let_def)

text \<open>What an iteration that ends has done.\<close>

lemma Init_accept_Some:
  assumes "Init_accept sock err st = Some (r, st')"
  shows "\<exists>idx. r = Registered (nextAddr st) \<and> clients st idx = None \<and>
           clients st' = (clients st)(idx := Some (nextAddr st)) \<and>
           heap st' = (heap st)(nextAddr st := (new_session sock)\<lparr>UserIdx := idx\<rparr>) \<and>
           nextAddr st' = Suc (nextAddr st) \<and> userIdx st' = idx + 1"
proof (cases "clients st (userIdx st) = None")
  case True
  with assms show ?thesis
    by (cases err) (auto simp: Init_accept_def Let_def)
next
  case False
  then obtain idx where f: "find_free_idx (clients st) (userIdx st) = Some idx"
    using assms by (cases err; cases "find_free_idx (clients st) (userIdx st)") (auto simp: Init_accept_def Let_def)
  then have free: "clients st idx = None" by (rule find_free_idx_free)
  with assms False f show ?thesis
    by (cases err) (auto simp: Init_accept_def Let_def)
qed

lemma reg_inv_Init_state: "reg_inv Init_state"
  by (simp add: reg_inv_def Init_state_def)

lemma reg_inv_Init_accept:
  assumes "reg_inv st" and "Init_accept sock err st = Some (r, st')"
  shows "reg_inv st'"
proof -
  obtain idx where h: "clients st idx = None"
    "clients st' = (clients st)(idx := Some (nextAddr st))"
    "heap st' = (heap st)(nextAddr st := (new_session sock)\<lparr>UserIdx := idx\<rparr>)"
    "nextAddr st' = Suc (nextAddr st)"
    using Init_accept_Some [OF assms(2)] by blast
  show ?thesis
    unfolding reg_inv_def
  proof (intro allI impI)
    fix k p assume kp: "clients st' k = Some p"
    show "p < nextAddr st' \<and> UserIdx (heap st' p) = k"
    proof (cases "k = idx")
      case True
      with kp h show ?thesis by simp
    next
      case False
      with kp h have "clients st k = Some p" by simp
      with assms(1) have "p < nextAddr st" "UserIdx (heap st p) = k"
        by (auto simp: reg_inv_def)
      with h show ?thesis by simp
    qed
  qed
qed

lemma onClientDisconnect_simps [simp]:
  "clients (onClientDisconnect (SessionEvent p) st) = (clients st)(UserIdx (heap st p) := None)"
  "clients (onClientDisconnect OtherEvent st) = clients st"
  "userIdx (onClientDisconnect ev st) = userIdx st"
  "heap (onClientDisconnect ev st) = heap st"
  "nextAddr (onClientDisconnect ev st) = nextAddr st"
  by (simp_all add: onClientDisconnect_def Let_def split: Event.splits)

lemma reg_inv_onClientDisconnect:
  "reg_inv st \<Longrightarrow> reg_inv (onClientDisconnect ev st)"
  by (cases ev) (auto simp: reg_inv_def)

lemma reg_inv_step:
  "reg_inv st \<Longrightarrow> step x st = Some st' \<Longrightarrow> reg_inv st'"
  by (cases x) (auto simp: reg_inv_onClientDisconnect dest: reg_inv_Init_accept)

lemma reg_inv_run:
  "reg_inv st \<Longrightarrow> run xs st = Some st' \<Longrightarrow> reg_inv st'"
proof (induction xs arbitrary: st)
  case Nil
  then show ?case by simp
next
  case (Cons x xs)
  then show ?case by (auto split: option.splits dest: reg_inv_step)
qed

section \<open>Identities in the registry\<close>

text \<open>
  Claim C1. After any sequence of accepts and disconnects that starts from the state
  \<open>Init\<close> sets up, two registered sessions with the same \<open>UserIdx\<close> are the same session
  under the same key, every registered session carries the key it is stored under, and an
  accept that registers a session gives it an identity that no registered session held
  before the accept, leaving every other entry as it was.
\<close>

theorem registry_identity_unique:
  assumes "run ops Init_state = Some st"
  shows "(\<forall>k k' p q. clients st k = Some p \<and> clients st k' = Some q \<and>
            UserIdx (heap st p) = UserIdx (heap st q) \<longrightarrow> k = k' \<and> p = q) \<and>
         (\<forall>k p. clients st k = Some p \<longrightarrow> UserIdx (heap st p) = k) \<and>
         (\<forall>sock err p st'. Init_accept sock err st = Some (Registered p, st') \<longrightarrow>
            clients st (UserIdx (heap st' p)) = None \<and>
            clients st' (UserIdx (heap st' p)) = Some p \<and>
            (\<forall>k. k \<noteq> UserIdx (heap st' p) \<longrightarrow> clients st' k = clients st k))"
proof -
  have inv: "reg_inv st" using reg_inv_Init_state assms by (rule reg_inv_run)
  have a: "\<forall>k p. clients st k = Some p \<longrightarrow> UserIdx (heap st p) = k"
    using inv by (simp add: reg_inv_def)
  have b: "\<forall>k k' p q. clients st k = Some p \<and> clients st k' = Some q \<and>
            UserIdx (heap st p) = UserIdx (heap st q) \<longrightarrow> k = k' \<and> p = q"
    using a by (metis option.inject)
  have c: "\<forall>sock err p st'. Init_accept sock err st = Some (Registered p, st') \<longrightarrow>
            clients st (UserIdx (heap st' p)) = None \<and>
            clients st' (UserIdx (heap st' p)) = Some p \<and>
            (\<forall>k. k \<noteq> UserIdx (heap st' p) \<longrightarrow> clients st' k = clients st k)"
  proof (intro allI impI)
    fix sock err p st'
    assume acc: "Init_accept sock err st = Some (Registered p, st')"
    from Init_accept_Some [OF acc] obtain idx where h: "p = nextAddr st" "clients st idx = None"
      "clients st' = (clients st)(idx := Some (nextAddr st))"
      "heap st' = (heap st)(nextAddr st := (new_session sock)\<lparr>UserIdx := idx\<rparr>)"
      by auto
    then show "clients st (UserIdx (heap st' p)) = None \<and>
            clients st' (UserIdx (heap st' p)) = Some p \<and>
            (\<forall>k. k \<noteq> UserIdx (heap st' p) \<longrightarrow> clients st' k = clients st k)"
      by simp
  qed
  from b a c show ?thesis by blast
qed

theorem registry_identity_unique_witness:
  "\<exists>st. run [Accept (Some ''10.0.0.1'') None, Accept (Some ''10.0.0.2'') None,
              Disconnect (SessionEvent 0), Accept (Some ''10.0.0.3'') None] Init_state = Some st \<and>
        clients st 0 = None \<and> clients st 1 = Some 1 \<and> clients st 2 = Some 2 \<and>
        UserIdx (heap st 1) = 1 \<and> UserIdx (heap st 2) = 2"
proof -
  obtain st where r: "run [Accept (Some ''10.0.0.1'') None, Accept (Some ''10.0.0.2'') None,
              Disconnect (SessionEvent 0), Accept (Some ''10.0.0.3'') None] Init_state = Some st"
    and c: "clients st 0 = None" "clients st 1 = Some 1" "clients st 2 = Some 2"
    by (simp add: Init_accept_def Init_state_def Let_def new_session_def)
  from registry_identity_unique [OF r] c have "UserIdx (heap st 1) = 1" "UserIdx (heap st 2) = 2"
    by blast+
  with r c show ?thesis by blast
qed

section \<open>Which identity an accept assigns\<close>

lemma Init_accept_first_free:
  assumes free: "clients st (userIdx st + of_nat k) = None"
    and occ: "\<And>j. j < k \<Longrightarrow> clients st (userIdx st + of_nat j) \<noteq> None"
  shows "\<exists>st'. Init_accept sock err st = Some (Registered (nextAddr st), st') \<and>
           clients st' = (clients st)(userIdx st + of_nat k := Some (nextAddr st)) \<and>
           heap st' = (heap st)(nextAddr st :=
                        (new_session sock)\<lparr>UserIdx := userIdx st + of_nat k\<rparr>) \<and>
           userIdx st' = userIdx st + of_nat k + 1 \<and>
           nextAddr st' = Suc (nextAddr st)"
proof (cases k)
  case 0
  with free have "clients st (userIdx st) = None" by simp
  with 0 show ?thesis
    by (cases err) (simp_all add: Init_accept_def Let_def)
next
  case (Suc m)
  then have "clients st (userIdx st) \<noteq> None" using occ [of 0] by simp
  moreover have "find_free_idx (clients st) (userIdx st) = Some (userIdx st + of_nat k)"
    using free occ by (rule find_free_idx_steps)
  ultimately show ?thesis using free
    by (cases err) (simp_all add: Init_accept_def Let_def)
qed

lemma first_free_exists:
  fixes cl :: "uint16 \<Rightarrow> addr option"
  assumes "cl i = None"
  shows "\<exists>k. cl (u + of_nat k) = None \<and> (\<forall>j<k. cl (u + of_nat j) \<noteq> None)"
proof -
  have "cl (u + of_nat (unat (i - u))) = None" using assms by simp
  then have ex: "\<exists>k. cl (u + of_nat k) = None" ..
  define k where "k = (LEAST k. cl (u + of_nat k) = None)"
  have "cl (u + of_nat k) = None" unfolding k_def using ex by (rule LeastI_ex)
  moreover have "\<forall>j<k. cl (u + of_nat j) \<noteq> None"
    unfolding k_def using not_less_Least by blast
  ultimately show ?thesis by blast
qed

text \<open>
  Claim C2, as the code has it. When some identity is free, the iteration returns and
  registers the new session under the first free identity at or after the running
  index, counting upwards with wrap-around: every identity from the running index up to
  it is in use. The running index then is one past the identity assigned.
\<close>

theorem Init_accept_first_free_from_index:
  assumes "clients st i = None"
  shows "\<exists>k st'. Init_accept sock err st = Some (Registered (nextAddr st), st') \<and>
           assigned_identity (Init_accept sock err st) = Some (userIdx st + of_nat k) \<and>
           clients st (userIdx st + of_nat k) = None \<and>
           (\<forall>j<k. clients st (userIdx st + of_nat j) \<noteq> None) \<and>
           clients st' = (clients st)(userIdx st + of_nat k := Some (nextAddr st)) \<and>
           userIdx st' = userIdx st + of_nat k + 1"
proof -
  from first_free_exists [of "clients st" i "userIdx st"] assms obtain k
    where k: "clients st (userIdx st + of_nat k) = None"
      "\<forall>j<k. clients st (userIdx st + of_nat j) \<noteq> None" by blast
  from Init_accept_first_free [of st k sock err] k obtain st'
    where r: "Init_accept sock err st = Some (Registered (nextAddr st), st')"
      "clients st' = (clients st)(userIdx st + of_nat k := Some (nextAddr st))"
      "heap st' = (heap st)(nextAddr st := (new_session sock)\<lparr>UserIdx := userIdx st + of_nat k\<rparr>)"
      "userIdx st' = userIdx st + of_nat k + 1" by blast
  then have "assigned_identity (Init_accept sock err st) = Some (userIdx st + of_nat k)"
    by (simp add: assigned_identity_def)
  with r k show ?thesis by blast
qed

theorem Init_accept_first_free_from_index_witness:
  "clients (Init_state\<lparr>clients := (\<lambda>k. None)(0 := Some 0, 1 := Some 1), nextAddr := 2\<rparr>) 7 = None \<and>
   assigned_identity
     (Init_accept (Some ''10.0.0.3'') None
        (Init_state\<lparr>clients := (\<lambda>k. None)(0 := Some 0, 1 := Some 1), nextAddr := 2\<rparr>)) = Some 2"
proof -
  let ?st = "Init_state\<lparr>clients := (\<lambda>k. None)(0 := Some 0, 1 := Some 1), nextAddr := 2\<rparr>"
  have free: "clients ?st 7 = None" by simp
  from Init_accept_first_free_from_index [OF free, of "Some ''10.0.0.3''" None] obtain k
    where a: "assigned_identity (Init_accept (Some ''10.0.0.3'') None ?st) = Some (userIdx ?st + of_nat k)"
      and f: "clients ?st (userIdx ?st + of_nat k) = None"
      and o: "\<forall>j<k. clients ?st (userIdx ?st + of_nat j) \<noteq> None" by blast
  have "k = 2"
  proof (rule ccontr)
    assume "k \<noteq> 2"
    then consider "k = 0" | "k = 1" | "2 < k" by linarith
    then show False
    proof cases
      case 1 with f show False by (simp add: Init_state_def)
    next
      case 2 with f show False by (simp add: Init_state_def)
    next
      case 3 with o have "clients ?st (userIdx ?st + of_nat 2) \<noteq> None" by blast
      then show False by (simp add: Init_state_def)
    qed
  qed
  with a have "assigned_identity (Init_accept (Some ''10.0.0.3'') None ?st) = Some 2"
    by (simp add: Init_state_def)
  with free show ?thesis by blast
qed

text \<open>
  Two sessions are accepted and the first one leaves: identity 0 is free and lower than
  the running index 2, and the next session is given identity 2.
\<close>

theorem lowest_free_identity_counterexample:
  "run [Accept (Some ''10.0.0.1'') None, Accept (Some ''10.0.0.2'') None,
        Disconnect (SessionEvent 0)] Init_state \<noteq> None \<and>
   clients (the (run [Accept (Some ''10.0.0.1'') None, Accept (Some ''10.0.0.2'') None,
                      Disconnect (SessionEvent 0)] Init_state)) 0 = None \<and>
   userIdx (the (run [Accept (Some ''10.0.0.1'') None, Accept (Some ''10.0.0.2'') None,
                      Disconnect (SessionEvent 0)] Init_state)) = 2 \<and>
   assigned_identity
     (Init_accept (Some ''10.0.0.3'') None
        (the (run [Accept (Some ''10.0.0.1'') None, Accept (Some ''10.0.0.2'') None,
                   Disconnect (SessionEvent 0)] Init_state))) = Some 2"
  by (simp add: Init_accept_def Init_state_def Let_def new_session_def assigned_identity_def)

section \<open>A registry without a free identity\<close>

lemma run_append:
  "run (xs @ ys) st = (case run xs st of None \<Rightarrow> None | Some st' \<Rightarrow> run ys st')"
  by (induction xs arbitrary: st) (auto split: option.splits)

text \<open>The state after \<open>n\<close> accepts and no disconnect.\<close>

lemma accepts_reach:
  "n \<le> 65536 \<Longrightarrow>
   \<exists>st. run (replicate n (Accept sock None)) Init_state = Some st \<and>
        clients st = (\<lambda>k. if unat k < n then Some (unat k) else None) \<and>
        userIdx st = of_nat n \<and> nextAddr st = n"
proof (induction n)
  case 0
  then show ?case by (simp add: Init_state_def)
next
  case (Suc n)
  then obtain st where st: "run (replicate n (Accept sock None)) Init_state = Some st"
    "clients st = (\<lambda>k. if unat k < n then Some (unat k) else None)"
    "userIdx st = of_nat n" "nextAddr st = n" by auto
  have n: "n < 65536" using Suc.prems by simp
  then have un: "unat (of_nat n :: uint16) = n" by (simp add: unat_of_nat)
  have "clients st (userIdx st + of_nat 0) = None" using st un by simp
  from Init_accept_first_free [OF this, of sock None] obtain st'
    where st': "Init_accept sock None st = Some (Registered (nextAddr st), st')"
      "clients st' = (clients st)(userIdx st + of_nat 0 := Some (nextAddr st))"
      "userIdx st' = userIdx st + of_nat 0 + 1" "nextAddr st' = Suc (nextAddr st)"
    by auto
  have cl: "clients st' = (\<lambda>k. if unat k < Suc n then Some (unat k) else None)"
  proof
    fix k :: uint16
    show "clients st' k = (if unat k < Suc n then Some (unat k) else None)"
    proof (cases "k = of_nat n")
      case True
      then show ?thesis using st' st un by simp
    next
      case False
      then have "unat k \<noteq> n" by auto
      then show ?thesis using st' st False by auto
    qed
  qed
  have "replicate (Suc n) (Accept sock None) = replicate n (Accept sock None) @ [Accept sock None]"
    by (simp add: replicate_append_same)
  then have "run (replicate (Suc n) (Accept sock None)) Init_state = Some st'"
    using st(1) st'(1) by (simp only: run_append) simp
  moreover have "userIdx st' = of_nat (Suc n)" using st' st by simp
  moreover have "nextAddr st' = Suc n" using st' st by simp
  ultimately show ?case using cl by blast
qed

lemma full_registry_reachable:
  "\<exists>st. run (replicate 65536 (Accept sock None)) Init_state = Some st \<and>
        clients st = clients full_registry \<and> userIdx st = userIdx full_registry"
proof -
  from accepts_reach [of 65536 sock] obtain st
    where st: "run (replicate 65536 (Accept sock None)) Init_state = Some st"
      "clients st = (\<lambda>k. if unat k < 65536 then Some (unat k) else None)"
      "userIdx st = of_nat 65536" by auto
  have "\<And>k :: uint16. unat k < 65536"
  proof -
    fix k :: uint16
    have "unat k < 2 ^ LENGTH(16)" by (rule unsigned_less)
    then show "unat k < 65536" by simp
  qed
  then have "clients st = clients full_registry" using st by (simp add: full_registry_def)
  moreover have "userIdx st = userIdx full_registry" using st by (simp add: full_registry_def)
  ultimately show ?thesis using st by blast
qed

text \<open>
  Claim C3, at the code. When every identity is in use, the iteration of the accept loop
  does not return: the search for a free index runs on for ever, and neither the log
  line nor the close of the new session is reached.
\<close>

theorem Init_accept_full_never_returns:
  assumes "\<forall>k. clients st k \<noteq> None"
  shows "Init_accept sock err st = None"
proof -
  have occ: "clients st (userIdx st) \<noteq> None" using assms by blast
  have "find_free_idx (clients st) (userIdx st) = None"
    using assms by (intro find_free_idx_full) blast
  with occ show ?thesis
    by (cases err) (simp_all add: Init_accept_def Let_def)
qed

theorem Init_accept_full_never_returns_witness:
  "(\<forall>k. clients full_registry k \<noteq> None) \<and>
   Init_accept (Some ''10.0.0.9'') None full_registry = None"
proof -
  have full: "\<forall>k. clients full_registry k \<noteq> None" by (simp add: full_registry_def)
  from Init_accept_full_never_returns [OF full] full show ?thesis by blast
qed

section \<open>VerifyUser\<close>

text \<open>
  Claim C10. \<open>VerifyUser\<close> returns true exactly when a session is registered under \<open>i\<close>
  whose auth key is \<open>k\<close> and whose remote IP is \<open>ip\<close>; it then sets \<open>Verified\<close>,
  \<open>LoggedIn\<close> and \<open>AccountId\<close> of that session and changes nothing else. When it
  returns false every session is as before. The registry map is never changed.
\<close>

theorem VerifyUser_correct:
  "(fst (VerifyUser i k ip db_idx st) \<longleftrightarrow>
      (\<exists>s. clients st i = Some s \<and> AuthKey (heap st s) = k \<and> GetIp (heap st s) = Some ip)) \<and>
   (\<forall>s. clients st i = Some s \<and> AuthKey (heap st s) = k \<and> GetIp (heap st s) = Some ip \<longrightarrow>
      heap (snd (VerifyUser i k ip db_idx st)) =
        (heap st)(s := (heap st s)\<lparr>Verified := True, LoggedIn := True, AccountId := db_idx\<rparr>)) \<and>
   (\<not> fst (VerifyUser i k ip db_idx st) \<longrightarrow> heap (snd (VerifyUser i k ip db_idx st)) = heap st) \<and>
   clients (snd (VerifyUser i k ip db_idx st)) = clients st \<and>
   userIdx (snd (VerifyUser i k ip db_idx st)) = userIdx st"
  by (cases "clients st i") (auto simp: VerifyUser_def Let_def)

theorem VerifyUser_correct_witness:
  "fst (VerifyUser 0 5 ''10.0.0.1'' 42 one_connected) \<and>
   Verified (heap (snd (VerifyUser 0 5 ''10.0.0.1'' 42 one_connected)) 0) \<and>
   LoggedIn (heap (snd (VerifyUser 0 5 ''10.0.0.1'' 42 one_connected)) 0) \<and>
   AccountId (heap (snd (VerifyUser 0 5 ''10.0.0.1'' 42 one_connected)) 0) = 42 \<and>
   \<not> fst (VerifyUser 0 6 ''10.0.0.1'' 42 one_connected) \<and>
   heap (snd (VerifyUser 0 6 ''10.0.0.1'' 42 one_connected)) = heap one_connected \<and>
   \<not> fst (VerifyUser 0 5 ''10.0.0.2'' 42 one_connected) \<and>
   \<not> fst (VerifyUser 1 5 ''10.0.0.1'' 42 one_connected)"
proof -
  have s: "clients one_connected 0 = Some 0" "AuthKey (heap one_connected 0) = 5"
    "GetIp (heap one_connected 0) = Some ''10.0.0.1''" "clients one_connected 1 = None"
    by (simp_all add: one_connected_def GetIp_def new_session_def)
  from VerifyUser_correct [of 0 5 "''10.0.0.1''" 42 one_connected] s
  have a: "fst (VerifyUser 0 5 ''10.0.0.1'' 42 one_connected)"
    and b: "heap (snd (VerifyUser 0 5 ''10.0.0.1'' 42 one_connected)) =
      (heap one_connected)(0 := (heap one_connected 0)\<lparr>Verified := True, LoggedIn := True, AccountId := 42\<rparr>)"
    by auto
  from VerifyUser_correct [of 0 6 "''10.0.0.1''" 42 one_connected] s
  have c: "\<not> fst (VerifyUser 0 6 ''10.0.0.1'' 42 one_connected)"
    "heap (snd (VerifyUser 0 6 ''10.0.0.1'' 42 one_connected)) = heap one_connected"
    by auto
  from VerifyUser_correct [of 0 5 "''10.0.0.2''" 42 one_connected] s
  have d: "\<not> fst (VerifyUser 0 5 ''10.0.0.2'' 42 one_connected)" by auto
  from VerifyUser_correct [of 1 5 "''10.0.0.1''" 42 one_connected] s
  have e: "\<not> fst (VerifyUser 1 5 ''10.0.0.1'' 42 one_connected)" by auto
  from a b c d e show ?thesis by simp
qed

section \<open>SendToUser\<close>

lemma emitted_append [simp]:
  "trace st' = trace st @ es \<Longrightarrow> emitted st st' = es"
  by (simp add: emitted_def)

lemma SendToUser_trace:
  "trace (snd (SendToUser i w st)) =
     trace st @ (case clients st i of
                   None \<Rightarrow> [RLock, RUnlock]
                 | Some s \<Rightarrow> if Connected (heap st s) then [RLock, Send s w, RUnlock]
                             else [RLock, RUnlock])"
  by (cases "clients st i") (auto simp: SendToUser_def Let_def Session_Send_def)

lemma SendToUser_emitted:
  "emitted st (snd (SendToUser i w st)) =
     (case clients st i of
        None \<Rightarrow> [RLock, RUnlock]
      | Some s \<Rightarrow> if Connected (heap st s) then [RLock, Send s w, RUnlock]
                  else [RLock, RUnlock])"
  by (rule emitted_append) (rule SendToUser_trace)

lemma SendToUser_frame:
  "clients (snd (SendToUser i w st)) = clients st"
  "heap (snd (SendToUser i w st)) = heap st"
  "userIdx (snd (SendToUser i w st)) = userIdx st"
  by (cases "clients st i"; auto simp: SendToUser_def Let_def Session_Send_def)+

lemma SendToUser_result:
  "fst (SendToUser i w st) \<longleftrightarrow> (\<exists>s. clients st i = Some s \<and> Connected (heap st s))"
  by (cases "clients st i") (auto simp: SendToUser_def Let_def)

text \<open>
  Claim C6. \<open>SendToUser\<close> always returns a boolean. It is true exactly when a session is
  registered under \<open>i\<close> and that session is connected; the packet is then sent once, to
  that session. When it is false nothing is sent. Registry and sessions stay as they
  are.
\<close>

theorem SendToUser_correct:
  "(fst (SendToUser i w st) \<longleftrightarrow> (\<exists>s. clients st i = Some s \<and> Connected (heap st s))) \<and>
   (\<forall>s. clients st i = Some s \<and> Connected (heap st s) \<longrightarrow>
      sends (emitted st (snd (SendToUser i w st))) = [(s, w)]) \<and>
   (\<not> fst (SendToUser i w st) \<longrightarrow> sends (emitted st (snd (SendToUser i w st))) = []) \<and>
   clients (snd (SendToUser i w st)) = clients st \<and>
   heap (snd (SendToUser i w st)) = heap st \<and>
   userIdx (snd (SendToUser i w st)) = userIdx st"
  by (cases "clients st i") (auto simp: SendToUser_emitted SendToUser_frame SendToUser_result)

theorem SendToUser_correct_witness:
  "fst (SendToUser 0 (Writer 7 [1, 2]) one_connected) \<and>
   sends (emitted one_connected (snd (SendToUser 0 (Writer 7 [1, 2]) one_connected))) =
     [(0, Writer 7 [1, 2])] \<and>
   \<not> fst (SendToUser 1 (Writer 7 [1, 2]) one_connected) \<and>
   sends (emitted one_connected (snd (SendToUser 1 (Writer 7 [1, 2]) one_connected))) = [] \<and>
   \<not> fst (SendToUser 0 (Writer 7 [1, 2]) (Session_Close 0 one_connected)) \<and>
   sends (emitted (Session_Close 0 one_connected)
            (snd (SendToUser 0 (Writer 7 [1, 2]) (Session_Close 0 one_connected)))) = []"
proof -
  have s: "clients one_connected 0 = Some 0" "Connected (heap one_connected 0)"
    "clients one_connected 1 = None"
    "clients (Session_Close 0 one_connected) 0 = Some 0"
    "\<not> Connected (heap (Session_Close 0 one_connected) 0)"
    by (simp_all add: one_connected_def new_session_def Session_Close_def emit_def)
  from SendToUser_correct [of 0 "Writer 7 [1, 2]" one_connected] s
  have a: "fst (SendToUser 0 (Writer 7 [1, 2]) one_connected)"
    "sends (emitted one_connected (snd (SendToUser 0 (Writer 7 [1, 2]) one_connected))) =
     [(0, Writer 7 [1, 2])]" by auto
  from SendToUser_correct [of 1 "Writer 7 [1, 2]" one_connected] s
  have b: "\<not> fst (SendToUser 1 (Writer 7 [1, 2]) one_connected)"
   "sends (emitted one_connected (snd (SendToUser 1 (Writer 7 [1, 2]) one_connected))) = []"
    by auto
  from SendToUser_correct [of 0 "Writer 7 [1, 2]" "Session_Close 0 one_connected"] s
  have c: "\<not> fst (SendToUser 0 (Writer 7 [1, 2]) (Session_Close 0 one_connected))"
   "sends (emitted (Session_Close 0 one_connected)
            (snd (SendToUser 0 (Writer 7 [1, 2]) (Session_Close 0 one_connected)))) = []"
    by auto
  from a b c show ?thesis by simp
qed

section \<open>SendToAll and SendToAllExcept\<close>

lemma visited_Nil [simp]: "visited [] st = []"
  by (simp add: visited_def map_filter_simps)

lemma visited_Cons:
  "visited (k # ks) st =
     (case clients st k of None \<Rightarrow> visited ks st | Some p \<Rightarrow> p # visited ks st)"
  by (cases "clients st k") (simp_all add: visited_def map_filter_simps)

lemma visited_clients_cong:
  "clients st' = clients st \<Longrightarrow> visited ks st' = visited ks st"
  by (simp add: visited_def)

lemma Session_Send_simps [simp]:
  "clients (Session_Send p w st) = clients st"
  "userIdx (Session_Send p w st) = userIdx st"
  "heap (Session_Send p w st) = heap st"
  "nextAddr (Session_Send p w st) = nextAddr st"
  "trace (Session_Send p w st) = trace st @ [Send p w]"
  by (simp_all add: Session_Send_def)

lemma SendToAll_loop_frame [simp]:
  "clients (SendToAll_loop w ks st) = clients st"
  "userIdx (SendToAll_loop w ks st) = userIdx st"
  "heap (SendToAll_loop w ks st) = heap st"
  "nextAddr (SendToAll_loop w ks st) = nextAddr st"
  by (induction ks arbitrary: st; simp split: option.splits)+

lemma SendToAll_loop_trace:
  "trace (SendToAll_loop w ks st) = trace st @ map (\<lambda>p. Send p w) (visited ks st)"
proof (induction ks arbitrary: st)
  case Nil
  then show ?case by simp
next
  case (Cons k ks)
  show ?case
  proof (cases "clients st k")
    case None
    then show ?thesis using Cons.IH [of st] by (simp add: visited_Cons)
  next
    case (Some s)
    have "visited ks (Session_Send s w st) = visited ks st"
      by (rule visited_clients_cong) simp
    then show ?thesis using Some Cons.IH [of "Session_Send s w st"]
      by (simp add: visited_Cons)
  qed
qed

lemma SendToAllExcept_loop_frame [simp]:
  "clients (SendToAllExcept_loop w x ks st) = clients st"
  "userIdx (SendToAllExcept_loop w x ks st) = userIdx st"
  "heap (SendToAllExcept_loop w x ks st) = heap st"
  "nextAddr (SendToAllExcept_loop w x ks st) = nextAddr st"
  by (induction ks arbitrary: st; simp split: option.splits)+

lemma SendToAllExcept_loop_trace:
  "trace (SendToAllExcept_loop w x ks st) =
     trace st @ map (\<lambda>p. Send p w) (filter (\<lambda>p. Some p \<noteq> x) (visited ks st))"
proof (induction ks arbitrary: st)
  case Nil
  then show ?case by simp
next
  case (Cons k ks)
  show ?case
  proof (cases "clients st k")
    case None
    then show ?thesis using Cons.IH [of st] by (simp add: visited_Cons)
  next
    case (Some s)
    have "visited ks (Session_Send s w st) = visited ks st"
      by (rule visited_clients_cong) simp
    then show ?thesis using Some Cons.IH [of "Session_Send s w st"] Cons.IH [of st]
      by (simp add: visited_Cons)
  qed
qed

lemma SendToAll_emitted:
  "emitted st (SendToAll ks w st) = RLock # map (\<lambda>p. Send p w) (visited ks st) @ [RUnlock]"
proof (rule emitted_append)
  have "visited ks (emit RLock st) = visited ks st"
    by (rule visited_clients_cong) simp
  then show "trace (SendToAll ks w st) =
      trace st @ RLock # map (\<lambda>p. Send p w) (visited ks st) @ [RUnlock]"
    by (simp add: SendToAll_def SendToAll_loop_trace)
qed

lemma SendToAllExcept_emitted:
  "emitted st (SendToAllExcept ks w x st) =
     RLock # map (\<lambda>p. Send p w) (filter (\<lambda>p. Some p \<noteq> x) (visited ks st)) @ [RUnlock]"
proof (rule emitted_append)
  have "visited ks (emit RLock st) = visited ks st"
    by (rule visited_clients_cong) simp
  then show "trace (SendToAllExcept ks w x st) =
      trace st @ RLock # map (\<lambda>p. Send p w) (filter (\<lambda>p. Some p \<noteq> x) (visited ks st)) @ [RUnlock]"
    by (simp add: SendToAllExcept_def SendToAllExcept_loop_trace)
qed

lemma sends_Send_calls [simp]:
  "sends (map (\<lambda>p. Send p w) ps @ es) = map (\<lambda>p. (p, w)) ps @ sends es"
  by (induction ps) simp_all

lemma sends_under_rlock_Send_calls [simp]:
  "sends_under_rlock (Suc d) (map (\<lambda>p. Send p w) ps @ es) =
     map (\<lambda>p. (p, w)) ps @ sends_under_rlock (Suc d) es"
  by (induction ps) simp_all

text \<open>In a consistent registry an order of the map visits every session once.\<close>

lemma visited_range_order:
  assumes "range_order ks st" and "reg_inv st"
  shows "distinct (visited ks st)" and "set (visited ks st) = ran (clients st)"
proof -
  have sub: "set ks \<subseteq> dom (clients st)" and d: "distinct ks" and all: "dom (clients st) \<subseteq> set ks"
    using assms(1) by (auto simp: range_order_def)
  have eq: "set js \<subseteq> dom (clients st) \<Longrightarrow> visited js st = map (\<lambda>k. the (clients st k)) js" for js
    by (induction js) (auto simp: visited_Cons)
  have inj: "inj_on (\<lambda>k. the (clients st k)) (set ks)"
  proof (rule inj_onI)
    fix a b assume "a \<in> set ks" "b \<in> set ks" "the (clients st a) = the (clients st b)"
    with sub obtain p where "clients st a = Some p" "clients st b = Some p" by fastforce
    with assms(2) show "a = b" unfolding reg_inv_def by metis
  qed
  show "distinct (visited ks st)" using d inj by (simp add: eq [OF sub] distinct_map)
  have "set (visited ks st) = (\<lambda>k. the (clients st k)) ` dom (clients st)"
    using sub all by (simp add: eq [OF sub])
  also have "\<dots> = ran (clients st)" by (auto simp: ran_def dom_def image_iff) (metis option.sel)
  finally show "set (visited ks st) = ran (clients st)" .
qed

lemma SendToAll_clients [simp]: "clients (SendToAll ks w st) = clients st"
  by (simp add: SendToAll_def)

lemma SendToAllExcept_clients [simp]: "clients (SendToAllExcept ks w x st) = clients st"
  by (simp add: SendToAllExcept_def)

lemma SendToAll_sends:
  "sends (emitted st (SendToAll ks w st)) = map (\<lambda>p. (p, w)) (visited ks st)"
  by (simp add: SendToAll_emitted)

lemma SendToAllExcept_sends:
  "sends (emitted st (SendToAllExcept ks w x st)) =
     map (\<lambda>p. (p, w)) (filter (\<lambda>p. Some p \<noteq> x) (visited ks st))"
  by (simp add: SendToAllExcept_emitted)

text \<open>
  Claim C5, as the code has it. In a consistent registry, with the map not changed during
  the loop, \<open>SendToAll\<close> calls \<open>Send\<close> with the packet once for every registered session
  and for no other; \<open>SendToAllExcept\<close> does the same for every registered session but
  the excluded one, for which it makes no call. Neither changes the map.
\<close>

theorem SendToAll_exactly_once:
  assumes "range_order ks st" and "reg_inv st"
  shows "distinct (sends (emitted st (SendToAll ks w st))) \<and>
         set (sends (emitted st (SendToAll ks w st))) = (\<lambda>p. (p, w)) ` ran (clients st) \<and>
         distinct (sends (emitted st (SendToAllExcept ks w x st))) \<and>
         set (sends (emitted st (SendToAllExcept ks w x st))) =
           (\<lambda>p. (p, w)) ` {p \<in> ran (clients st). Some p \<noteq> x} \<and>
         clients (SendToAll ks w st) = clients st \<and>
         clients (SendToAllExcept ks w x st) = clients st"
proof -
  note v = visited_range_order [OF assms]
  have inj: "inj_on (\<lambda>p. (p, w)) A" for A :: "addr set" by (rule inj_onI) simp
  have 1: "distinct (sends (emitted st (SendToAll ks w st)))"
    using v(1) inj by (simp add: SendToAll_sends distinct_map)
  have 2: "set (sends (emitted st (SendToAll ks w st))) = (\<lambda>p. (p, w)) ` ran (clients st)"
    using v(2) by (simp add: SendToAll_sends)
  have 3: "distinct (sends (emitted st (SendToAllExcept ks w x st)))"
    using v(1) inj by (simp add: SendToAllExcept_sends distinct_map)
  have 4: "set (sends (emitted st (SendToAllExcept ks w x st))) =
           (\<lambda>p. (p, w)) ` {p \<in> ran (clients st). Some p \<noteq> x}"
    using v(2) by (simp add: SendToAllExcept_sends)
  from 1 2 3 4 show ?thesis by simp
qed

lemma two_connected_facts:
  "range_order [1, 0] two_connected" "reg_inv two_connected"
  "ran (clients two_connected) = {0, 1}"
proof -
  show "range_order [1, 0] two_connected"
    by (auto simp: range_order_def two_connected_def split: if_splits)
  show "reg_inv two_connected"
    by (auto simp: reg_inv_def two_connected_def split: if_splits)
  have "clients two_connected 0 = Some 0" "clients two_connected 1 = Some 1"
    by (simp_all add: two_connected_def)
  then have "{0, 1} \<subseteq> ran (clients two_connected)"
    unfolding ran_def by blast
  moreover have "ran (clients two_connected) \<subseteq> {0, 1}"
    by (auto simp: two_connected_def ran_def split: if_splits)
  ultimately show "ran (clients two_connected) = {0, 1}" by blast
qed

theorem SendToAll_exactly_once_witness:
  "range_order [1, 0] two_connected \<and> reg_inv two_connected \<and>
   distinct (sends (emitted two_connected (SendToAll [1, 0] (Writer 7 [1, 2]) two_connected))) \<and>
   set (sends (emitted two_connected (SendToAll [1, 0] (Writer 7 [1, 2]) two_connected))) =
     {(0, Writer 7 [1, 2]), (1, Writer 7 [1, 2])} \<and>
   set (sends (emitted two_connected
                 (SendToAllExcept [1, 0] (Writer 7 [1, 2]) (Some 1) two_connected))) =
     {(0, Writer 7 [1, 2])}"
proof -
  have "{p \<in> {0, 1 :: addr}. Some p \<noteq> Some 1} = {0}" by auto
  with SendToAll_exactly_once [OF two_connected_facts(1,2), of "Writer 7 [1, 2]" "Some 1"]
    two_connected_facts
  show ?thesis by (simp add: insert_commute)
qed

lemma just_accepted_run:
  "run [Accept (Some ''10.0.0.1'') None] Init_state = Some just_accepted"
  by (simp add: just_accepted_def Init_accept_def Init_state_def Let_def)

lemma just_accepted_facts:
  "clients just_accepted = (\<lambda>k. None)(0 := Some 0)"
  "Connected (heap just_accepted 0) = False"
  by (simp_all add: just_accepted_def Init_accept_def Init_state_def Let_def new_session_def)

text \<open>
  A session that has just been accepted is registered and not connected: \<open>SendToUser\<close>
  sends it nothing, the two broadcasts call \<open>Send\<close> for it.
\<close>

theorem broadcast_to_unconnected_counterexample:
  "run [Accept (Some ''10.0.0.1'') None] Init_state = Some just_accepted \<and>
   range_order [0] just_accepted \<and>
   clients just_accepted 0 = Some 0 \<and>
   \<not> Connected (heap just_accepted 0) \<and>
   sends (emitted just_accepted (SendToAll [0] (Writer 7 [1, 2]) just_accepted)) =
     [(0, Writer 7 [1, 2])] \<and>
   sends (emitted just_accepted (SendToAllExcept [0] (Writer 7 [1, 2]) None just_accepted)) =
     [(0, Writer 7 [1, 2])] \<and>
   sends (emitted just_accepted (snd (SendToUser 0 (Writer 7 [1, 2]) just_accepted))) = []"
proof -
  have "range_order [0] just_accepted"
    by (auto simp: range_order_def just_accepted_facts split: if_splits)
  then show ?thesis
    using just_accepted_run
    by (simp add: just_accepted_facts SendToAll_sends SendToAllExcept_sends visited_Cons
        SendToUser_emitted del: run.simps)
qed

section \<open>The read lock and the socket write\<close>

text \<open>
  Claim C8, as the code has it. \<open>SendToUser\<close>, \<open>SendToAll\<close> and \<open>SendToAllExcept\<close> take
  the registry's read lock first and release it last; every call of \<open>Send\<close> they make lies
  in between, so each packet is written while the read lock is held.
\<close>

theorem sends_while_read_lock_held:
  "sends_under_rlock 0 (emitted st (snd (SendToUser i w st))) =
     sends (emitted st (snd (SendToUser i w st))) \<and>
   emitted st (SendToAll ks w st) =
     RLock # map (\<lambda>p. Send p w) (visited ks st) @ [RUnlock] \<and>
   sends_under_rlock 0 (emitted st (SendToAll ks w st)) =
     sends (emitted st (SendToAll ks w st)) \<and>
   emitted st (SendToAllExcept ks w x st) =
     RLock # map (\<lambda>p. Send p w) (filter (\<lambda>p. Some p \<noteq> x) (visited ks st)) @ [RUnlock] \<and>
   sends_under_rlock 0 (emitted st (SendToAllExcept ks w x st)) =
     sends (emitted st (SendToAllExcept ks w x st))"
  by (cases "clients st i") (simp_all add: SendToUser_emitted SendToAll_emitted SendToAllExcept_emitted)

theorem sends_while_read_lock_held_witness:
  "sends_under_rlock 0
     (emitted two_connected (SendToAll [1, 0] (Writer 7 [1, 2]) two_connected)) =
     [(1, Writer 7 [1, 2]), (0, Writer 7 [1, 2])]"
proof -
  have "visited [1, 0] two_connected = [1, 0]"
    by (simp add: visited_Cons two_connected_def)
  with sends_while_read_lock_held [of two_connected 0 "Writer 7 [1, 2]" "[1, 0]" None]
  show ?thesis by (simp add: SendToAll_sends)
qed

text \<open>
  The packet for the connected session under identity 0 is written between the
  acquisition and the release of the read lock, by \<open>SendToUser\<close> and by \<open>SendToAll\<close>;
  so is the packet that \<open>SendToAll\<close> writes to the first session \<open>Init\<close> accepts.
\<close>

theorem send_under_read_lock_counterexample:
  "emitted one_connected (snd (SendToUser 0 (Writer 7 [1, 2]) one_connected)) =
     [RLock, Send 0 (Writer 7 [1, 2]), RUnlock] \<and>
   sends_under_rlock 0
     (emitted one_connected (snd (SendToUser 0 (Writer 7 [1, 2]) one_connected))) =
     [(0, Writer 7 [1, 2])] \<and>
   emitted one_connected (SendToAll [0] (Writer 7 [1, 2]) one_connected) =
     [RLock, Send 0 (Writer 7 [1, 2]), RUnlock] \<and>
   sends_under_rlock 0
     (emitted one_connected (SendToAll [0] (Writer 7 [1, 2]) one_connected)) =
     [(0, Writer 7 [1, 2])] \<and>
   run [Accept (Some ''10.0.0.1'') None] Init_state = Some just_accepted \<and>
   emitted just_accepted (SendToAll [0] (Writer 7 [1, 2]) just_accepted) =
     [RLock, Send 0 (Writer 7 [1, 2]), RUnlock] \<and>
   sends_under_rlock 0
     (emitted just_accepted (SendToAll [0] (Writer 7 [1, 2]) just_accepted)) =
     [(0, Writer 7 [1, 2])]"
  using just_accepted_run
  by (simp add: SendToUser_emitted SendToAll_emitted visited_Cons one_connected_def
      new_session_def just_accepted_facts del: run.simps)

section \<open>IsOnline\<close>

lemma IsOnline_loop_None:
  "IsOnline_loop account ks st = None \<longleftrightarrow>
     \<not> (\<exists>s \<in> set (visited ks st). online_as account (heap st s))"
  by (induction ks) (auto simp: visited_Cons online_as_def split: option.splits)

lemma IsOnline_loop_Some:
  "IsOnline_loop account ks st = Some idx \<Longrightarrow>
     \<exists>s \<in> set (visited ks st). online_as account (heap st s) \<and> idx = UserIdx (heap st s)"
  by (induction ks) (auto simp: visited_Cons online_as_def split: option.splits if_splits)

lemma IsOnline_frame [simp]:
  "clients (snd (IsOnline sentinel ks account st)) = clients st"
  "heap (snd (IsOnline sentinel ks account st)) = heap st"
  "userIdx (snd (IsOnline sentinel ks account st)) = userIdx st"
  by (simp_all add: IsOnline_def Let_def split: option.splits)

lemma IsOnline_loop_emit [simp]:
  "IsOnline_loop account ks (emit e st) = IsOnline_loop account ks st"
  by (induction ks) (simp_all split: option.splits)

lemma IsOnline_fst:
  "fst (IsOnline sentinel ks account st) =
     (case IsOnline_loop account ks st of Some index \<Rightarrow> index | None \<Rightarrow> sentinel)"
  by (simp add: IsOnline_def Let_def split: option.splits)

text \<open>
  What \<open>IsOnline\<close> returns, with \<open>ks\<close> an order of a consistent registry: when some
  registered session is verified and logged in with the account, the identity of such
  a session, which is the key it is registered under; when there is none, the constant
  \<open>INVALID_USER_INDEX\<close>. The registry is not changed.
\<close>

lemma IsOnline_result:
  assumes "range_order ks st" and "reg_inv st"
  shows "((\<exists>s \<in> ran (clients st). online_as account (heap st s)) \<longrightarrow>
            (\<exists>k s. clients st k = Some s \<and> online_as account (heap st s) \<and>
                   fst (IsOnline INVALID_USER_INDEX ks account st) = k)) \<and>
         (\<not> (\<exists>s \<in> ran (clients st). online_as account (heap st s)) \<longrightarrow>
            fst (IsOnline INVALID_USER_INDEX ks account st) = INVALID_USER_INDEX) \<and>
         clients (snd (IsOnline INVALID_USER_INDEX ks account st)) = clients st \<and>
         heap (snd (IsOnline INVALID_USER_INDEX ks account st)) = heap st"
proof -
  note v = visited_range_order [OF assms]
  have a: "\<exists>k s. clients st k = Some s \<and> online_as account (heap st s) \<and>
                   fst (IsOnline INVALID_USER_INDEX ks account st) = k"
    if "\<exists>s \<in> ran (clients st). online_as account (heap st s)"
  proof -
    from that v(2) have "IsOnline_loop account ks st \<noteq> None"
      by (simp add: IsOnline_loop_None)
    then obtain idx where i: "IsOnline_loop account ks st = Some idx" by blast
    from IsOnline_loop_Some [OF i] v(2) obtain s
      where s: "s \<in> ran (clients st)" "online_as account (heap st s)" "idx = UserIdx (heap st s)"
      by blast
    from s(1) obtain k where k: "clients st k = Some s" by (auto simp: ran_def)
    with assms(2) have "UserIdx (heap st s) = k" by (simp add: reg_inv_def)
    with s k i show ?thesis by (auto simp: IsOnline_fst)
  qed
  have b: "fst (IsOnline INVALID_USER_INDEX ks account st) = INVALID_USER_INDEX"
    if "\<not> (\<exists>s \<in> ran (clients st). online_as account (heap st s))"
  proof -
    from that v(2) have "IsOnline_loop account ks st = None"
      by (simp add: IsOnline_loop_None)
    then show ?thesis by (simp add: IsOnline_fst)
  qed
  from a b show ?thesis by simp
qed

lemma online_at_facts:
  "range_order [i] (online_at i)" "reg_inv (online_at i)"
  "clients (online_at i) i = Some 0" "online_as 42 (heap (online_at i) 0)"
  "ran (clients (online_at i)) = {0}"
  by (auto simp: range_order_def reg_inv_def online_at_def online_as_def new_session_def ran_def
      split: if_splits)

lemma IsOnline_result_example:
  "range_order [3] (online_at 3) \<and> reg_inv (online_at 3) \<and>
   fst (IsOnline 65535 [3] 42 (online_at 3)) = 3 \<and>
   fst (IsOnline 65535 [3] 41 (online_at 3)) = 65535"
proof -
  have c: "clients (online_at 3) = (\<lambda>k. None)(3 := Some 0)" by (simp add: online_at_def)
  have n: "\<not> online_as 41 (heap (online_at 3) 0)"
    by (simp add: online_at_def online_as_def new_session_def)
  from IsOnline_result [OF online_at_facts(1,2), of 3 42 65535] online_at_facts(4,5) [of 3]
  obtain k s where "clients (online_at 3) k = Some s" "fst (IsOnline 65535 [3] 42 (online_at 3)) = k"
    by auto
  with c have a: "fst (IsOnline 65535 [3] 42 (online_at 3)) = 3"
    by (auto split: if_splits)
  from IsOnline_result [OF online_at_facts(1,2), of 3 41 65535] online_at_facts(5) [of 3] n
  have b: "fst (IsOnline 65535 [3] 41 (online_at 3)) = 65535" by simp
  from a b online_at_facts(1,2) [of 3] show ?thesis by simp
qed

text \<open>
  The registry of the claim's failing case is reached by the code: after 65536 accepts
  the session with identity 65535 is registered, \<open>VerifyUser\<close> marks it verified and
  logged in with account 42, and from then on \<open>IsOnline\<close>, in whatever order it visits
  the map, answers 65535 for account 42 as for account 41.
\<close>

lemma accepts_heap:
  "n \<le> 65536 \<Longrightarrow> run (replicate n (Accept sock None)) Init_state = Some st \<Longrightarrow>
   p < n \<Longrightarrow> heap st p = (new_session sock)\<lparr>UserIdx := of_nat p\<rparr>"
proof (induction n arbitrary: st p)
  case 0
  then show ?case by simp
next
  case (Suc n)
  have n: "n \<le> 65536" using Suc.prems(1) by simp
  from accepts_reach [OF n, of sock] obtain st0
    where st0: "run (replicate n (Accept sock None)) Init_state = Some st0"
      "clients st0 = (\<lambda>k. if unat k < n then Some (unat k) else None)"
      "userIdx st0 = of_nat n" "nextAddr st0 = n" by auto
  have "n < 65536" using Suc.prems(1) by simp
  then have un: "unat (of_nat n :: uint16) = n" by (simp add: unat_of_nat)
  have "clients st0 (userIdx st0 + of_nat 0) = None" using st0 un by simp
  from Init_accept_first_free [OF this, of sock None] obtain st'
    where st': "Init_accept sock None st0 = Some (Registered (nextAddr st0), st')"
      "heap st' = (heap st0)(nextAddr st0 :=
                        (new_session sock)\<lparr>UserIdx := userIdx st0 + of_nat 0\<rparr>)"
    by auto
  have "replicate (Suc n) (Accept sock None) = replicate n (Accept sock None) @ [Accept sock None]"
    by (simp add: replicate_append_same)
  then have "run (replicate (Suc n) (Accept sock None)) Init_state = Some st'"
    using st0(1) st'(1) by (simp only: run_append) simp
  with Suc.prems(2) have eq: "st = st'" by simp
  show ?case
  proof (cases "p = n")
    case True
    then show ?thesis using eq st' st0 by simp
  next
    case False
    then have "p < n" using Suc.prems(3) by simp
    then have "heap st0 p = (new_session sock)\<lparr>UserIdx := of_nat p\<rparr>"
      using Suc.IH [OF n st0(1)] by simp
    then show ?thesis using eq st' st0 False by simp
  qed
qed

lemma VerifyUser_hit:
  assumes "clients st i = Some s" and "AuthKey (heap st s) = k" and "GetIp (heap st s) = Some ip"
  shows "fst (VerifyUser i k ip d st)"
    and "heap (snd (VerifyUser i k ip d st)) =
           (heap st)(s := (heap st s)\<lparr>Verified := True, LoggedIn := True, AccountId := d\<rparr>)"
    and "clients (snd (VerifyUser i k ip d st)) = clients st"
    and "nextAddr (snd (VerifyUser i k ip d st)) = nextAddr st"
  using assms by (simp_all add: VerifyUser_def Let_def)

lemma sentinel_session_reachable:
  "\<exists>st. run (replicate 65536 (Accept (Some ip) None)) Init_state = Some st \<and>
        clients st 65535 = Some 65535 \<and>
        fst (VerifyUser 65535 0 ip 42 st) \<and>
        (\<forall>ks. range_order ks (snd (VerifyUser 65535 0 ip 42 st)) \<longrightarrow>
           fst (IsOnline 65535 ks 42 (snd (VerifyUser 65535 0 ip 42 st))) = 65535 \<and>
           fst (IsOnline 65535 ks 41 (snd (VerifyUser 65535 0 ip 42 st))) = 65535)"
proof -
  from accepts_reach [of 65536 "Some ip"] obtain st
    where st: "run (replicate 65536 (Accept (Some ip) None)) Init_state = Some st"
      "clients st = (\<lambda>k. if unat k < 65536 then Some (unat k) else None)"
      "nextAddr st = 65536" by auto
  have lt: "unat k < 65536" for k :: uint16
  proof -
    have "unat k < 2 ^ LENGTH(16)" by (rule unsigned_less)
    then show ?thesis by simp
  qed
  have cl: "clients st k = Some (unat k)" for k using st(2) lt by simp
  have hp: "heap st p = (new_session (Some ip))\<lparr>UserIdx := of_nat p\<rparr>" if "p < 65536" for p
    using accepts_heap [OF _ st(1) that] by simp
  have c: "clients st 65535 = Some 65535" using cl [of 65535] by simp
  have h: "heap st 65535 = (new_session (Some ip))\<lparr>UserIdx := 65535\<rparr>"
    using hp [of 65535] by simp
  define st' where "st' = snd (VerifyUser 65535 0 ip 42 st)"
  have ak: "AuthKey (heap st 65535) = 0" and gi: "GetIp (heap st 65535) = Some ip"
    using h by (simp_all add: new_session_def GetIp_def)
  note v = VerifyUser_hit [OF c ak gi, of 42, folded st'_def]
  have inv: "reg_inv st" using reg_inv_Init_state st(1) by (rule reg_inv_run)
  have inv': "reg_inv st'"
    using inv v(2,3,4) by (auto simp: reg_inv_def)
  have on: "online_as a (heap st' s) \<longleftrightarrow> s = 65535 \<and> a = 42" if "s < 65536" for a s
    using v(2) hp [OF that] by (auto simp: online_as_def new_session_def)
  have ran: "s \<in> ran (clients st') \<Longrightarrow> s < 65536" for s
    using v(3) cl lt by (auto simp: ran_def)
  have r: "65535 \<in> ran (clients st')" using v(3) c by (auto simp: ran_def)
  have all: "fst (IsOnline 65535 ks 42 st') = 65535 \<and> fst (IsOnline 65535 ks 41 st') = 65535"
    if ro: "range_order ks st'" for ks
  proof -
    note res = IsOnline_result [OF ro inv']
    have "\<exists>s \<in> ran (clients st'). online_as 42 (heap st' s)" using r on [of 65535 42] by auto
    with res [of 42 65535] obtain k s where ks: "clients st' k = Some s"
      "online_as 42 (heap st' s)" "fst (IsOnline 65535 ks 42 st') = k" by blast
    from ks(1) have "s \<in> ran (clients st')" by (auto simp: ran_def)
    with ks(2) on ran have "s = 65535" by blast
    with ks(1) v(3) cl [of k] have "unat k = 65535" by simp
    then have "unat k = unat (65535 :: uint16)" by simp
    then have "k = 65535" by (simp only: word_unat_eq_iff [symmetric])
    with ks(3) have a: "fst (IsOnline 65535 ks 42 st') = 65535" by simp
    have "\<not> (\<exists>s \<in> ran (clients st'). online_as 41 (heap st' s))" using on ran by auto
    with res [of 41 65535] have "fst (IsOnline 65535 ks 41 st') = 65535" by blast
    with a show ?thesis by simp
  qed
  from st(1) c v(1) all show ?thesis unfolding st'_def by blast
qed

text \<open>
  Claim C4, at the code. The claim asks that \<open>INVALID_USER_INDEX\<close> differ from every
  identity, so that the result of \<open>IsOnline\<close> tells an account that is online from one
  that is not. The allocator does not keep the value out of the identities: whatever
  \<open>uint16\<close> the constant is, in the consistent registry whose only session holds that
  value as its identity and is verified and logged in with account 42, \<open>IsOnline\<close>
  returns the constant for account 42, which is online, as it does for account 41, which
  is not.
\<close>

theorem IsOnline_sentinel_is_identity:
  "range_order [sentinel] (online_at sentinel) \<and> reg_inv (online_at sentinel) \<and>
   clients (online_at sentinel) sentinel = Some 0 \<and>
   online_as 42 (heap (online_at sentinel) 0) \<and>
   UserIdx (heap (online_at sentinel) 0) = sentinel \<and>
   fst (IsOnline sentinel [sentinel] 42 (online_at sentinel)) = sentinel \<and>
   fst (IsOnline sentinel [sentinel] 41 (online_at sentinel)) = sentinel"
proof -
  have u: "UserIdx (heap (online_at sentinel) 0) = sentinel"
    by (simp add: online_at_def)
  have "IsOnline_loop 41 [sentinel] (online_at sentinel) = None"
    by (simp add: online_at_def new_session_def)
  then have "fst (IsOnline sentinel [sentinel] 41 (online_at sentinel)) = sentinel"
    by (simp add: IsOnline_fst)
  then show ?thesis
    using u online_at_facts [of sentinel] by (simp add: IsOnline_fst)
qed

theorem IsOnline_sentinel_is_identity_witness:
  "range_order [65535] (online_at 65535) \<and> reg_inv (online_at 65535) \<and>
   clients (online_at 65535) 65535 = Some 0 \<and> online_as 42 (heap (online_at 65535) 0) \<and>
   UserIdx (heap (online_at 65535) 0) = 65535 \<and>
   fst (IsOnline 65535 [65535] 42 (online_at 65535)) = 65535 \<and>
   fst (IsOnline 65535 [65535] 41 (online_at 65535)) = 65535"
  using IsOnline_sentinel_is_identity [of 65535] .

section \<open>Removing and closing a session\<close>

lemma Session_Close_simps [simp]:
  "clients (Session_Close p st) = clients st"
  "userIdx (Session_Close p st) = userIdx st"
  "nextAddr (Session_Close p st) = nextAddr st"
  "heap (Session_Close p st) = (heap st)(p := (heap st p)\<lparr>Connected := False\<rparr>)"
  "trace (Session_Close p st) = trace st @ [Close p]"
  by (simp_all add: Session_Close_def)

lemma CloseUser_loop_Some:
  "CloseUser_loop i ks st = Some s \<Longrightarrow>
     \<exists>k \<in> set ks. clients st k = Some s \<and> UserIdx (heap st s) = i"
  by (induction ks) (auto split: option.splits if_splits)

lemma CloseUser_loop_emit [simp]:
  "CloseUser_loop i ks (emit e st) = CloseUser_loop i ks st"
  by (induction ks) (simp_all split: option.splits)

lemma CloseUser_clients [simp]:
  "clients (snd (CloseUser ks i st)) = clients st"
  "userIdx (snd (CloseUser ks i st)) = userIdx st"
  "nextAddr (snd (CloseUser ks i st)) = nextAddr st"
  by (simp_all add: CloseUser_def Let_def split: option.splits)

lemma CloseUser_heap_other:
  assumes "reg_inv st" and "clients st j = Some q" and "j \<noteq> i"
  shows "heap (snd (CloseUser ks i st)) q = heap st q"
proof (cases "CloseUser_loop i ks st")
  case None
  then show ?thesis by (simp add: CloseUser_def Let_def)
next
  case (Some s)
  from CloseUser_loop_Some [OF Some] have "UserIdx (heap st s) = i" by blast
  moreover from assms(1,2) have "UserIdx (heap st q) = j" by (simp add: reg_inv_def)
  ultimately have "q \<noteq> s" using assms(3) by auto
  with Some show ?thesis by (simp add: CloseUser_def Let_def)
qed

lemma CloseUser_UserIdx [simp]:
  "UserIdx (heap (snd (CloseUser ks i st)) p) = UserIdx (heap st p)"
  by (simp add: CloseUser_def Let_def split: option.splits)

lemma reg_inv_CloseUser:
  "reg_inv st \<Longrightarrow> reg_inv (snd (CloseUser ks i st))"
  by (simp add: reg_inv_def)

lemma onClientDisconnect_emitted:
  "emitted st (onClientDisconnect (SessionEvent p) st) = [Lock, Unlock]"
  by (rule emitted_append) (simp add: onClientDisconnect_def Let_def)

text \<open>
  Claim C7. A disconnect event for a session whose identity is not in the registry
  leaves the map, the running index and the sessions as they are, and logs no error;
  a disconnect event changes no entry but the one under the session's identity, and
  delivered a second time it changes nothing. In a consistent registry \<open>CloseUser\<close> for
  identity \<open>i\<close>, once or twice, changes neither the map nor any session registered under
  another identity.
\<close>

theorem remove_and_close_frame:
  assumes "reg_inv st"
  shows "(clients st (UserIdx (heap st p)) = None \<longrightarrow>
            clients (onClientDisconnect (SessionEvent p) st) = clients st) \<and>
         userIdx (onClientDisconnect (SessionEvent p) st) = userIdx st \<and>
         heap (onClientDisconnect (SessionEvent p) st) = heap st \<and>
         emitted st (onClientDisconnect (SessionEvent p) st) = [Lock, Unlock] \<and>
         (\<forall>j. j \<noteq> UserIdx (heap st p) \<longrightarrow>
            clients (onClientDisconnect (SessionEvent p) st) j = clients st j) \<and>
         clients (onClientDisconnect (SessionEvent p) st) (UserIdx (heap st p)) = None \<and>
         clients (onClientDisconnect (SessionEvent p) (onClientDisconnect (SessionEvent p) st)) =
           clients (onClientDisconnect (SessionEvent p) st) \<and>
         clients (snd (CloseUser ks i st)) = clients st \<and>
         clients (snd (CloseUser ks' i (snd (CloseUser ks i st)))) = clients st \<and>
         (\<forall>j q. j \<noteq> i \<and> clients st j = Some q \<longrightarrow>
            heap (snd (CloseUser ks i st)) q = heap st q \<and>
            heap (snd (CloseUser ks' i (snd (CloseUser ks i st)))) q = heap st q)"
proof -
  have a: "clients st (UserIdx (heap st p)) = None \<longrightarrow>
            clients (onClientDisconnect (SessionEvent p) st) = clients st"
    by auto
  have b: "\<forall>j q. j \<noteq> i \<and> clients st j = Some q \<longrightarrow>
            heap (snd (CloseUser ks i st)) q = heap st q \<and>
            heap (snd (CloseUser ks' i (snd (CloseUser ks i st)))) q = heap st q"
  proof (intro allI impI)
    fix j q assume h: "j \<noteq> i \<and> clients st j = Some q"
    then have 1: "heap (snd (CloseUser ks i st)) q = heap st q"
      using assms CloseUser_heap_other [of st j q i ks] by blast
    have "clients (snd (CloseUser ks i st)) j = Some q" using h by simp
    then have "heap (snd (CloseUser ks' i (snd (CloseUser ks i st)))) q =
          heap (snd (CloseUser ks i st)) q"
      using h reg_inv_CloseUser [OF assms, of ks i]
        CloseUser_heap_other [of "snd (CloseUser ks i st)" j q i ks'] by blast
    with 1 show "heap (snd (CloseUser ks i st)) q = heap st q \<and>
            heap (snd (CloseUser ks' i (snd (CloseUser ks i st)))) q = heap st q" by simp
  qed
  from a b show ?thesis by (simp add: onClientDisconnect_emitted)
qed

theorem remove_and_close_frame_witness:
  "reg_inv two_connected \<and>
   clients (onClientDisconnect (SessionEvent 0)
              (onClientDisconnect (SessionEvent 0) two_connected)) 1 = Some 1 \<and>
   clients (onClientDisconnect (SessionEvent 0)
              (onClientDisconnect (SessionEvent 0) two_connected)) 0 = None \<and>
   heap (snd (CloseUser [0, 1] 0 (snd (CloseUser [1, 0] 0 two_connected)))) 1 =
     heap two_connected 1 \<and>
   clients (snd (CloseUser [0, 1] 0 (snd (CloseUser [1, 0] 0 two_connected)))) 1 = Some 1"
proof -
  have c: "clients two_connected 1 = Some 1" "UserIdx (heap two_connected 0) = 0"
    by (simp_all add: two_connected_def)
  note t = remove_and_close_frame [OF two_connected_facts(2), of 0 "[1, 0]" 0 "[0, 1]"]
  from t have t1: "\<forall>j. j \<noteq> UserIdx (heap two_connected 0) \<longrightarrow>
      clients (onClientDisconnect (SessionEvent 0) two_connected) j = clients two_connected j"
    and t2: "clients (onClientDisconnect (SessionEvent 0) two_connected)
               (UserIdx (heap two_connected 0)) = None"
    and t3: "clients (onClientDisconnect (SessionEvent 0)
              (onClientDisconnect (SessionEvent 0) two_connected)) =
           clients (onClientDisconnect (SessionEvent 0) two_connected)"
    and t4: "clients (snd (CloseUser [0, 1] 0 (snd (CloseUser [1, 0] 0 two_connected)))) =
           clients two_connected"
    and t5: "\<forall>j q. j \<noteq> 0 \<and> clients two_connected j = Some q \<longrightarrow>
            heap (snd (CloseUser [1, 0] 0 two_connected)) q = heap two_connected q \<and>
            heap (snd (CloseUser [0, 1] 0 (snd (CloseUser [1, 0] 0 two_connected)))) q =
              heap two_connected q"
    by blast+
  have ne: "(1 :: uint16) \<noteq> 0" by simp
  from t1 c ne have "clients (onClientDisconnect (SessionEvent 0) two_connected) 1 = Some 1"
    by metis
  moreover from t2 c have "clients (onClientDisconnect (SessionEvent 0) two_connected) 0 = None"
    by simp
  ultimately have 2: "clients (onClientDisconnect (SessionEvent 0)
              (onClientDisconnect (SessionEvent 0) two_connected)) 1 = Some 1"
    "clients (onClientDisconnect (SessionEvent 0)
              (onClientDisconnect (SessionEvent 0) two_connected)) 0 = None"
    using t3 by simp_all
  from t5 c ne have 3: "heap (snd (CloseUser [0, 1] 0 (snd (CloseUser [1, 0] 0 two_connected)))) 1 =
     heap two_connected 1" by metis
  from t4 c have 4: "clients (snd (CloseUser [0, 1] 0 (snd (CloseUser [1, 0] 0 two_connected)))) 1 = Some 1"
    by simp
  from 2 3 4 two_connected_facts(2) show ?thesis by simp
qed

section \<open>Initialized before verification\<close>

text \<open>
  Claim C9. For a session whose \<open>Verified\<close> or \<open>LoggedIn\<close> flag is not set, \<open>Initialized\<close>
  writes one line to the error log and returns: no RPC call, no packet sent, no close,
  and registry and sessions, the session's payload included, are as before.
\<close>

theorem Initialized_rejects_unverified:
  assumes "\<not> Verified (heap st session) \<or> \<not> LoggedIn (heap st session)"
  shows "emitted st (Initialized e session charId st) = [LogError (ErrNotVerified charId)] \<and>
         sends (emitted st (Initialized e session charId st)) = [] \<and>
         heap (Initialized e session charId st) = heap st \<and>
         clients (Initialized e session charId st) = clients st \<and>
         userIdx (Initialized e session charId st) = userIdx st"
proof -
  have "Initialized e session charId st = emit (LogError (ErrNotVerified charId)) st"
    using assms by (auto simp: Initialized_def Let_def)
  then show ?thesis by (simp add: emitted_def)
qed

theorem Initialized_rejects_unverified_witness:
  "\<not> Verified (heap just_accepted 0) \<and>
   emitted just_accepted
     (Initialized \<lparr>ServerId = 1, LoadCharacters = (\<lambda>a b. []),
                   LoadCharacterData = (\<lambda>a b. \<lparr>Inventory = [], Skills = [], Links = []\<rparr>),
                   initialized_packet = (\<lambda>c r. Writer 9 [])\<rparr> 0 8 just_accepted) =
     [LogError (ErrNotVerified 8)] \<and>
   heap (Initialized \<lparr>ServerId = 1, LoadCharacters = (\<lambda>a b. []),
                   LoadCharacterData = (\<lambda>a b. \<lparr>Inventory = [], Skills = [], Links = []\<rparr>),
                   initialized_packet = (\<lambda>c r. Writer 9 [])\<rparr> 0 8 just_accepted) =
     heap just_accepted"
proof -
  have nv: "\<not> Verified (heap just_accepted 0)"
    by (simp add: just_accepted_def Init_accept_def Init_state_def Let_def new_session_def)
  then have "\<not> Verified (heap just_accepted 0) \<or> \<not> LoggedIn (heap just_accepted 0)" ..
  from Initialized_rejects_unverified [OF this] nv show ?thesis by blast
qed

end
